theory Spec2Isabelle
  imports Main
begin

section \<open>JavaScript strings\<close>

text \<open>
  A JavaScript string is modelled as a \<^typ>\<open>string\<close>: one \<^typ>\<open>char\<close> per code unit,
  restricted to the code units below 256. \<open>length\<close> is the \<open>.length\<close> of the source.
\<close>

text \<open>
  The white space and line terminators of ECMAScript that \<open>String.prototype.trim\<close>
  removes, among the code units below 256: TAB, LF, VT, FF, CR, SP and NBSP.
\<close>

definition is_space :: "char \<Rightarrow> bool" where
  "is_space c = (of_char c \<in> {9, 10, 11, 12, 13, 32, 160 :: nat})"

text \<open>\<open>s.trim()\<close>\<close>

definition trim :: "string \<Rightarrow> string" where
  "trim s = rev (dropWhile is_space (rev (dropWhile is_space s)))"

text \<open>\<open>s.split(',')\<close>: the pieces between the commas, empty pieces included.\<close>

fun split_comma :: "string \<Rightarrow> string list" where
  "split_comma [] = [[]]"
| "split_comma (c # cs) =
     (if c = CHR '','' then [] # split_comma cs
      else (case split_comma cs of
              [] \<Rightarrow> [[c]]
            | w # ws \<Rightarrow> (c # w) # ws))"

text \<open>\<open>Boolean(s)\<close> on a string: the empty string is the only falsy one.\<close>

definition Boolean :: "string \<Rightarrow> bool" where
  "Boolean s = (s \<noteq> [])"

text \<open>The decimal digits of a number, as the template literal \<open>`${counter}`\<close> writes them.\<close>

definition digit_char :: "nat \<Rightarrow> char" where
  "digit_char d = char_of (48 + d)"

fun digits :: "nat \<Rightarrow> string" where
  "digits n = (if n < 10 then [digit_char n] else digits (n div 10) @ [digit_char (n mod 10)])"

text \<open>Upper case of the ASCII letters.\<close>

definition upper :: "char \<Rightarrow> char" where
  "upper c = (if 97 \<le> (of_char c :: nat) \<and> (of_char c :: nat) \<le> 122
              then char_of (of_char c - 32 :: nat) else c)"

section \<open>Request bodies and their validation\<close>

text \<open>
  The \<open>tags\<close> field of a request body: absent (or another falsy value), an array of
  strings, a string, or some other truthy value (a number, an object).
\<close>

datatype tags_input = NoTags | TagArray "string list" | TagString string | TagOther

text \<open>
  The body of a create or update request. A field is \<open>None\<close> when it is absent; the
  text fields, when present, are strings.
\<close>

record body =
  body_title :: "string option"
  body_content :: "string option"
  body_excerpt :: "string option"
  body_coverImage :: "string option"
  body_tags :: tags_input

text \<open>The failures a handler answers with: status 400, 404 and 500, each with its message.\<close>

datatype error = BadRequest string | NotFound string | ServerError string


text \<open>
  The validation block of \<open>router.post('/')\<close> and \<open>router.put('/:id')\<close> (the same three
  checks in both): \<open>None\<close> when the body passes, the 400 answer otherwise.
\<close>

fun validate_body :: "string option \<Rightarrow> string option \<Rightarrow> error option" where
  "validate_body (Some title) (Some content) =
     (if title = [] \<or> content = [] then Some (BadRequest ''Title and content are required'')
      else if length (trim title) < 3
        then Some (BadRequest ''Title must be at least 3 characters long'')
      else if length (trim content) < 10
        then Some (BadRequest ''Content must be at least 10 characters long'')
      else None)"
| "validate_body _ _ = Some (BadRequest ''Title and content are required'')"

text \<open>The \<open>processedTags\<close> block of both handlers.\<close>

fun processedTags :: "tags_input \<Rightarrow> string list" where
  "processedTags NoTags = []"
| "processedTags (TagArray tags) = filter Boolean (map trim tags)"
| "processedTags (TagString tags) =
     (if tags = [] then [] else filter Boolean (map trim (split_comma tags)))"
| "processedTags TagOther = []"

text \<open>\<open>v ? v.trim() : undefined\<close>\<close>

fun trim_or_undefined :: "string option \<Rightarrow> string option" where
  "trim_or_undefined None = None"
| "trim_or_undefined (Some v) = (if v = [] then None else Some (trim v))"

section \<open>Posts and the collection\<close>

text \<open>
  A stored document. \<open>post_id\<close> is the \<open>_id\<close>; the dates are milliseconds. The router
  works on the model \<open>mongoose.models.Post || mongoose.model('Post', postSchema)\<close>, and
  nothing that the server loads requires \<open>models/Post.js\<close>, so the model is that of the
  router's own \<open>postSchema\<close>, which has no \<open>slug\<close> path. The field \<open>slug\<close> is that of
  the \<open>PostSchema\<close> of \<open>models/Post.js\<close>; the empty string stands for a document without
  one (\<open>!this.slug\<close> treats \<open>undefined\<close> and \<open>''\<close> alike).
\<close>

record post =
  post_id :: nat
  title :: string
  slug :: string
  content :: string
  excerpt :: "string option"
  tags :: "string list"
  coverImage :: "string option"
  createdAt :: nat
  updatedAt :: nat

text \<open>
  The collection: its documents in insertion order, and the next \<open>_id\<close> that
  \<open>new Post(...)\<close> hands out (ObjectIds are modelled by a counter).
\<close>

record collection =
  docs :: "post list"
  next_oid :: nat

definition empty_collection :: collection where
  "empty_collection = \<lparr>docs = [], next_oid = 0\<rparr>"

text \<open>\<open>findById(id)\<close>\<close>

definition findById :: "post list \<Rightarrow> nat \<Rightarrow> post option" where
  "findById ds oid = find (\<lambda>p. post_id p = oid) ds"

section \<open>The \<open>coverImage\<close> validator\<close>

text \<open>
  Regular expressions, as far as the pattern of the validator needs them. \<open>Lit\<close> is a
  character matched under the \<open>i\<close> flag, \<open>Dot\<close> is \<open>.\<close> (any character but a line
  terminator).
\<close>

datatype regexp =
  Never | Eps | Lit char | Dot | Seq regexp regexp | Alt regexp regexp | Star regexp

definition is_line_terminator :: "char \<Rightarrow> bool" where
  "is_line_terminator c = (of_char c \<in> {10, 13 :: nat})"

fun nullable :: "regexp \<Rightarrow> bool" where
  "nullable Never = False"
| "nullable Eps = True"
| "nullable (Lit a) = False"
| "nullable Dot = False"
| "nullable (Seq r s) = (nullable r \<and> nullable s)"
| "nullable (Alt r s) = (nullable r \<or> nullable s)"
| "nullable (Star r) = True"

text \<open>What is left of the expression after the character \<open>c\<close> has been read.\<close>

fun deriv :: "char \<Rightarrow> regexp \<Rightarrow> regexp" where
  "deriv c Never = Never"
| "deriv c Eps = Never"
| "deriv c (Lit a) = (if upper c = upper a then Eps else Never)"
| "deriv c Dot = (if is_line_terminator c then Never else Eps)"
| "deriv c (Seq r s) =
     (if nullable r then Alt (Seq (deriv c r) s) (deriv c s) else Seq (deriv c r) s)"
| "deriv c (Alt r s) = Alt (deriv c r) (deriv c s)"
| "deriv c (Star r) = Seq (deriv c r) (Star r)"

text \<open>\<open>/^r$/i.test(v)\<close>: the whole of \<open>v\<close> matches \<open>r\<close>.\<close>

fun test :: "regexp \<Rightarrow> string \<Rightarrow> bool" where
  "test r [] = nullable r"
| "test r (c # cs) = test (deriv c r) cs"

fun word :: "string \<Rightarrow> regexp" where
  "word [] = Eps"
| "word (c # cs) = Seq (Lit c) (word cs)"

text \<open>\<open>https?:\/\/\<close>, then \<open>.+\<close>, then \<open>\.\<close>, then \<open>(jpg|jpeg|png|gif|webp)\<close>\<close>

definition coverImage_pattern :: regexp where
  "coverImage_pattern =
     Seq (Seq (word ''http'') (Seq (Alt (Lit CHR ''s'') Eps) (word ''://'')))
       (Seq (Seq Dot (Star Dot))
         (Seq (Lit CHR ''.'')
           (Alt (word ''jpg'') (Alt (word ''jpeg'') (Alt (word ''png'')
             (Alt (word ''gif'') (word ''webp'')))))))"

text \<open>The validator of \<open>postSchema.coverImage\<close>; \<open>None\<close> is an absent value.\<close>

fun coverImage_validator :: "string option \<Rightarrow> bool" where
  "coverImage_validator None = True"
| "coverImage_validator (Some v) = (if v = [] then True else test coverImage_pattern v)"

section \<open>The router's schema: \<open>postSchema\<close>\<close>

text \<open>
  The validators of \<open>postSchema\<close> on the values of its paths, with the messages they
  carry: \<open>required\<close> and \<open>maxlength\<close> 200 on the title, \<open>required\<close> on the content,
  \<open>maxlength\<close> 500 on the excerpt, the validator of the cover image, and \<open>maxlength\<close> 50
  on each tag. An absent excerpt is not validated.
\<close>

definition schema_errors ::
  "string \<Rightarrow> string \<Rightarrow> string option \<Rightarrow> string option \<Rightarrow> string list \<Rightarrow> string list" where
  "schema_errors t c e img tgs =
     (if t = [] then [''Title is required'']
      else if 200 < length t then [''Title cannot exceed 200 characters'']
      else []) @
     (if c = [] then [''Content is required''] else []) @
     (case e of
        None \<Rightarrow> []
      | Some v \<Rightarrow> if 500 < length v then [''Excerpt cannot exceed 500 characters''] else []) @
     (if coverImage_validator img then []
      else [''Cover image must be a valid image URL (jpg, jpeg, png, gif, webp)'']) @
     concat (map (\<lambda>g. if 50 < length g then [''Each tag cannot exceed 50 characters''] else [])
                 tgs)"

section \<open>The handlers of the router\<close>

text \<open>\<open>messages.join(', ')\<close>\<close>

fun join_messages :: "string list \<Rightarrow> string" where
  "join_messages [] = []"
| "join_messages [m] = m"
| "join_messages (m # ms) = m @ '', '' @ join_messages ms"

text \<open>
  The string of a body field, read only after the validation block has answered for
  the absent ones.
\<close>

fun text_of :: "string option \<Rightarrow> string" where
  "text_of None = []"
| "text_of (Some v) = v"

text \<open>
  The values that both handlers hand to the model, after the \<open>trim: true\<close> setters of
  \<open>postSchema\<close> on the title, the excerpt, the cover image and each tag.
\<close>

definition set_title :: "body \<Rightarrow> string" where
  "set_title b = trim (trim (text_of (body_title b)))"

definition set_content :: "body \<Rightarrow> string" where
  "set_content b = trim (text_of (body_content b))"

definition set_excerpt :: "body \<Rightarrow> string option" where
  "set_excerpt b = map_option trim (trim_or_undefined (body_excerpt b))"

definition set_coverImage :: "body \<Rightarrow> string option" where
  "set_coverImage b = map_option trim (trim_or_undefined (body_coverImage b))"

definition set_tags :: "body \<Rightarrow> string list" where
  "set_tags b = map trim (processedTags (body_tags b))"

text \<open>The messages of the validators that these values violate.\<close>

definition body_errors :: "body \<Rightarrow> string list" where
  "body_errors b =
     schema_errors (set_title b) (set_content b) (set_excerpt b) (set_coverImage b) (set_tags b)"

text \<open>\<open>new Post({ ... })\<close> in \<open>router.post('/')\<close>, with its \<open>_id\<close> and the defaults of the
  dates.\<close>

definition new_Post :: "nat \<Rightarrow> nat \<Rightarrow> body \<Rightarrow> post" where
  "new_Post oid now b =
     \<lparr>post_id = oid,
      title = set_title b,
      slug = [],
      content = set_content b,
      excerpt = set_excerpt b,
      tags = set_tags b,
      coverImage = set_coverImage b,
      createdAt = now,
      updatedAt = now\<rparr>"

text \<open>
  \<open>post.save()\<close>: the validation of the schema, whose failure is a \<open>ValidationError\<close>
  with the messages, then the \<open>pre('save')\<close> hook, then the insertion.
\<close>

definition save :: "nat \<Rightarrow> collection \<Rightarrow> post \<Rightarrow> string list + post \<times> collection" where
  "save now coll this =
     (let ms = schema_errors (title this) (content this) (excerpt this) (coverImage this)
                 (tags this)
      in if ms \<noteq> [] then Inl ms
         else (let d = this\<lparr>updatedAt := now\<rparr>
               in Inr (d, coll\<lparr>docs := docs coll @ [d]\<rparr>)))"

text \<open>
  \<open>router.post('/')\<close>: the answer (201 with the saved post, or the failure) and the
  collection afterwards. A \<open>ValidationError\<close> is answered with 400 and the joined
  messages.
\<close>

definition post_handler :: "nat \<Rightarrow> collection \<Rightarrow> body \<Rightarrow> (error + post) \<times> collection" where
  "post_handler now coll b =
     (case validate_body (body_title b) (body_content b) of
        Some e \<Rightarrow> (Inl e, coll)
      | None \<Rightarrow>
          (let this = new_Post (next_oid coll) now b;
               coll1 = coll\<lparr>next_oid := Suc (next_oid coll)\<rparr>
           in case save now coll1 this of
                Inl ms \<Rightarrow> (Inl (BadRequest (join_messages ms)), coll1)
              | Inr (savedPost, coll2) \<Rightarrow> (Inr savedPost, coll2)))"

text \<open>
  \<open>Post.findByIdAndUpdate(id, update, { new: true, runValidators: true })\<close>, once the
  validators have passed: the first document with that \<open>_id\<close> gets the update; the answer
  is the updated document. It is a query, so no document hook runs.
\<close>

fun findByIdAndUpdate ::
  "post list \<Rightarrow> nat \<Rightarrow> (post \<Rightarrow> post) \<Rightarrow> (post \<times> post list) option" where
  "findByIdAndUpdate [] oid f = None"
| "findByIdAndUpdate (p # ps) oid f =
     (if post_id p = oid then Some (f p, f p # ps)
      else (case findByIdAndUpdate ps oid f of
              None \<Rightarrow> None
            | Some (q, ps') \<Rightarrow> Some (q, p # ps')))"

text \<open>
  The update object of \<open>router.put('/:id')\<close>. A key whose value is \<open>undefined\<close> is left
  out of the update, so that field stays as it is; \<open>updatedAt\<close> is set by the update and
  by \<open>pre('findOneAndUpdate')\<close>.
\<close>

definition put_update :: "nat \<Rightarrow> body \<Rightarrow> post \<Rightarrow> post" where
  "put_update now b p =
     p\<lparr>title := set_title b,
       content := set_content b,
       excerpt := (case set_excerpt b of None \<Rightarrow> excerpt p | Some v \<Rightarrow> Some v),
       coverImage := (case set_coverImage b of None \<Rightarrow> coverImage p | Some v \<Rightarrow> Some v),
       tags := set_tags b,
       updatedAt := now\<rparr>"



text \<open>
  \<open>router.put('/:id')\<close>: the check of the id, the validation block, then the update,
  whose validators (\<open>runValidators: true\<close>) run on the values of the update before the
  document is looked up; their \<open>ValidationError\<close> is answered with 400.
\<close>

definition put_handler ::
  "(string \<Rightarrow> nat option) \<Rightarrow> nat \<Rightarrow> collection \<Rightarrow> string \<Rightarrow> body \<Rightarrow> (error + post) \<times> collection" where
  "put_handler oid_of now coll ident b =
     (case oid_of ident of
        None \<Rightarrow> (Inl (BadRequest ''Invalid post ID format''), coll)
      | Some oid \<Rightarrow>
          (case validate_body (body_title b) (body_content b) of
             Some e \<Rightarrow> (Inl e, coll)
           | None \<Rightarrow>
               if body_errors b \<noteq> [] then (Inl (BadRequest (join_messages (body_errors b))), coll)
               else (case findByIdAndUpdate (docs coll) oid (put_update now b) of
                       None \<Rightarrow> (Inl (NotFound ''Post not found''), coll)
                     | Some (updatedPost, ds) \<Rightarrow> (Inr updatedPost, coll\<lparr>docs := ds\<rparr>))))"

text \<open>\<open>Post.findByIdAndDelete(id)\<close>: the first document with that \<open>_id\<close> is removed and
  returned.\<close>

fun findByIdAndDelete :: "post list \<Rightarrow> nat \<Rightarrow> (post \<times> post list) option" where
  "findByIdAndDelete [] oid = None"
| "findByIdAndDelete (p # ps) oid =
     (if post_id p = oid then Some (p, ps)
      else (case findByIdAndDelete ps oid of
              None \<Rightarrow> None
            | Some (q, ps') \<Rightarrow> Some (q, p # ps')))"

text \<open>\<open>router.delete('/:id')\<close>\<close>

definition delete_handler ::
  "(string \<Rightarrow> nat option) \<Rightarrow> collection \<Rightarrow> string \<Rightarrow> (error + post) \<times> collection" where
  "delete_handler oid_of coll ident =
     (case oid_of ident of
        None \<Rightarrow> (Inl (BadRequest ''Invalid post ID''), coll)
      | Some oid \<Rightarrow>
          (case findByIdAndDelete (docs coll) oid of
             None \<Rightarrow> (Inl (NotFound ''Post not found''), coll)
           | Some (deletedPost, ds) \<Rightarrow> (Inr deletedPost, coll\<lparr>docs := ds\<rparr>)))"

section \<open>The slug hook of \<open>models/Post.js\<close>: \<open>PostSchema.pre('validate')\<close>\<close>

text \<open>\<open>findOne({ slug, _id: { $ne: this._id } })\<close>\<close>

definition findOne_slug :: "post list \<Rightarrow> string \<Rightarrow> nat \<Rightarrow> post option" where
  "findOne_slug ds s oid = find (\<lambda>p. slug p = s \<and> post_id p \<noteq> oid) ds"

text \<open>\<open>`${base}-${counter}`\<close>\<close>

definition candidate :: "string \<Rightarrow> nat \<Rightarrow> string" where
  "candidate base counter = base @ ''-'' @ digits counter"

text \<open>
  The \<open>while\<close> loop of the hook, from the state \<open>(slug, counter)\<close>. It returns the free
  slug and the final value of \<open>counter\<close>; started at \<open>counter = 1\<close>, the final counter is
  the number of \<open>findOne\<close> calls made (each failed check increments it once, and the
  successful check is the last one).
\<close>

function probe_loop :: "post list \<Rightarrow> nat \<Rightarrow> string \<Rightarrow> string \<Rightarrow> nat \<Rightarrow> string \<times> nat" where
  "probe_loop ds oid base s counter =
     (if findOne_slug ds s oid \<noteq> None
      then probe_loop ds oid base (candidate base counter) (Suc counter)
      else (s, counter))"
  by pat_completeness auto

text \<open>The measure of the loop: one for a taken current slug, plus the taken candidates from
  \<open>counter\<close> on.\<close>

definition probe_measure :: "post list \<times> nat \<times> string \<times> string \<times> nat \<Rightarrow> nat" where
  "probe_measure = (\<lambda>(ds, oid, base, s, counter).
      (if findOne_slug ds s oid = None then 0 else 1)
      + card {k. counter \<le> k \<and> findOne_slug ds (candidate base k) oid \<noteq> None})"

text \<open>
  The hook. \<open>slugify\<close> is the call \<open>slugify(title, { lower: true, strict: true })\<close> of the
  npm package, a parameter here; \<open>title_modified\<close> is \<open>this.isModified('title')\<close>; \<open>now\<close>
  is \<open>Date.now()\<close>.
\<close>

definition pre_validate ::
  "(string \<Rightarrow> string) \<Rightarrow> post list \<Rightarrow> nat \<Rightarrow> bool \<Rightarrow> post \<Rightarrow> post" where
  "pre_validate slugify ds now title_modified this =
     (let this1 =
        (if title this \<noteq> [] \<and> (slug this = [] \<or> title_modified)
         then (let base = slugify (title this)
               in this\<lparr>slug := fst (probe_loop ds (post_id this) base base 1)\<rparr>)
         else this)
      in this1\<lparr>updatedAt := now\<rparr>)"

section \<open>The candidates and the joined pieces, in the spec's words\<close>

text \<open>The sequence \<open>base\<close>, \<open>base-1\<close>, \<open>base-2\<close>, ... of the specification.\<close>

definition nth_candidate :: "string \<Rightarrow> nat \<Rightarrow> string" where
  "nth_candidate base k = (if k = 0 then base else candidate base k)"

text \<open>\<open>pieces.join(',')\<close>, the inverse of \<open>split(',')\<close>.\<close>

fun join_comma :: "string list \<Rightarrow> string" where
  "join_comma [] = []"
| "join_comma [w] = w"
| "join_comma (w # ws) = w @ '','' @ join_comma ws"

section \<open>The \<open>slugify\<close> package\<close>

text \<open>Lower case of the letters below 256.\<close>

definition lower :: "char \<Rightarrow> char" where
  "lower c =
     (let n = (of_char c :: nat)
      in if (65 \<le> n \<and> n \<le> 90) \<or> (192 \<le> n \<and> n \<le> 222 \<and> n \<noteq> 215) then char_of (n + 32)
         else c)"

text \<open>A lower-case letter with a diacritic becomes its base letter.\<close>

definition strip_diacritic :: "char \<Rightarrow> char" where
  "strip_diacritic c =
     (let n = (of_char c :: nat)
      in if 224 \<le> n \<and> n \<le> 229 then CHR ''a''
         else if n = 231 then CHR ''c''
         else if 232 \<le> n \<and> n \<le> 235 then CHR ''e''
         else if 236 \<le> n \<and> n \<le> 239 then CHR ''i''
         else if n = 241 then CHR ''n''
         else if 242 \<le> n \<and> n \<le> 246 then CHR ''o''
         else if 249 \<le> n \<and> n \<le> 252 then CHR ''u''
         else if n = 253 \<or> n = 255 then CHR ''y''
         else c)"

text \<open>The punctuation marks and symbols below 256.\<close>

definition is_punctuation :: "char \<Rightarrow> bool" where
  "is_punctuation c =
     (let n = (of_char c :: nat)
      in (33 \<le> n \<and> n \<le> 47) \<or> (58 \<le> n \<and> n \<le> 64) \<or> (91 \<le> n \<and> n \<le> 96)
         \<or> (123 \<le> n \<and> n \<le> 126) \<or> (161 \<le> n \<and> n \<le> 191) \<or> n = 215 \<or> n = 247)"

definition is_alnum :: "char \<Rightarrow> bool" where
  "is_alnum c = (let n = (of_char c :: nat)
                 in (48 \<le> n \<and> n \<le> 57) \<or> (65 \<le> n \<and> n \<le> 90) \<or> (97 \<le> n \<and> n \<le> 122))"

text \<open>The runs of letters and digits of a string, the empty ones between two separators
  included.\<close>

fun alnum_runs :: "string \<Rightarrow> string list" where
  "alnum_runs [] = [[]]"
| "alnum_runs (c # cs) =
     (if is_alnum c
      then (case alnum_runs cs of
              [] \<Rightarrow> [[c]]
            | w # ws \<Rightarrow> (c # w) # ws)
      else [] # alnum_runs cs)"

fun join_hyphen :: "string list \<Rightarrow> string" where
  "join_hyphen [] = []"
| "join_hyphen [w] = w"
| "join_hyphen (w # ws) = w @ ''-'' @ join_hyphen ws"

text \<open>
  Modelled from the spec: the npm package \<open>slugify\<close> that the hook calls is not under
  src/. The specification's step 1, in its order: lowercase; strip diacritics and
  punctuation (an accented letter becomes its base letter, a punctuation mark or symbol
  is removed); collapse each run of white space and other non-alphanumeric characters
  to a single hyphen; trim leading and trailing hyphens. Strings are over the code units
  below 256.
\<close>

definition slugify_model :: "string \<Rightarrow> string" where
  "slugify_model t =
     join_hyphen
       (filter (\<lambda>w. w \<noteq> [])
          (alnum_runs
             (filter (\<lambda>c. \<not> is_punctuation c) (map strip_diacritic (map lower t)))))"

section \<open>Numbers and \<open>parseInt\<close>\<close>

text \<open>
  A JavaScript number as the list handler meets it: an integer, \<open>NaN\<close> or \<open>Infinity\<close>.
  Integers are exact (the rounding of doubles beyond \<open>2^53\<close> is not modelled).
\<close>

datatype jsnum = Fin int | NaN | Infinity

text \<open>The value of a character as a digit of the radix (10 or 16).\<close>

definition digit_value :: "nat \<Rightarrow> char \<Rightarrow> nat option" where
  "digit_value radix c =
     (let n = (of_char c :: nat)
      in if 48 \<le> n \<and> n \<le> 57 then Some (n - 48)
         else if radix = 16 \<and> 97 \<le> n \<and> n \<le> 102 then Some (n - 87)
         else if radix = 16 \<and> 65 \<le> n \<and> n \<le> 70 then Some (n - 55)
         else None)"

text \<open>The value of the longest prefix of digits; \<open>None\<close> when there is no digit.\<close>

fun parse_digits :: "nat \<Rightarrow> string \<Rightarrow> nat option \<Rightarrow> nat option" where
  "parse_digits radix [] acc = acc"
| "parse_digits radix (c # cs) acc =
     (case digit_value radix c of
        None \<Rightarrow> acc
      | Some d \<Rightarrow>
          parse_digits radix cs (Some (radix * (case acc of None \<Rightarrow> 0 | Some a \<Rightarrow> a) + d)))"

text \<open>
  \<open>parseInt(s)\<close> without a radix: leading white space, an optional sign, an optional
  \<open>0x\<close> prefix, then the digits up to the first character that is none.
\<close>

definition parseInt :: "string \<Rightarrow> jsnum" where
  "parseInt s =
     (let s1 = dropWhile is_space s;
          sign = (case s1 of [] \<Rightarrow> 1 | c # r \<Rightarrow> if c = CHR ''-'' then - 1 else (1 :: int));
          s2 = (case s1 of [] \<Rightarrow> [] | c # r \<Rightarrow> if c = CHR ''-'' \<or> c = CHR ''+'' then r else s1);
          hex = (take 2 s2 = ''0x'' \<or> take 2 s2 = ''0X'');
          radix = (if hex then 16 else 10);
          s3 = (if hex then drop 2 s2 else s2)
      in case parse_digits radix s3 None of
           None \<Rightarrow> NaN
         | Some n \<Rightarrow> Fin (sign * int n))"

text \<open>
  \<open>const { page = 1, limit = 10 } = req.query\<close> followed by \<open>parseInt\<close>: the default
  when the parameter is absent.
\<close>

fun parseInt_param :: "int \<Rightarrow> string option \<Rightarrow> jsnum" where
  "parseInt_param d None = Fin d"
| "parseInt_param d (Some s) = parseInt s"

text \<open>\<open>Math.min(a, 50)\<close>, \<open>(page - 1) * limit\<close> and \<open>Math.ceil(total / limit)\<close> on these
  numbers.\<close>

fun Math_min :: "jsnum \<Rightarrow> int \<Rightarrow> jsnum" where
  "Math_min (Fin a) b = Fin (min a b)"
| "Math_min NaN b = NaN"
| "Math_min Infinity b = Fin b"

fun skip_of :: "jsnum \<Rightarrow> jsnum \<Rightarrow> jsnum" where
  "skip_of (Fin p) (Fin l) = Fin ((p - 1) * l)"
| "skip_of _ _ = NaN"

fun pages_of :: "nat \<Rightarrow> jsnum \<Rightarrow> jsnum" where
  "pages_of n (Fin l) =
     (if l = 0 then (if n = 0 then NaN else Infinity)
      else Fin (- ((- int n) div l)))"
| "pages_of n _ = NaN"

section \<open>The list handler: \<open>router.get('/')\<close>\<close>

record list_request =
  req_page :: "string option"
  req_limit :: "string option"
  req_search :: "string option"
  req_tag :: "string option"

text \<open>The filter handed to the store: \<open>$text.$search\<close> and \<open>tags.$in\<close>, each when the
  parameter is truthy.\<close>

record filter_query =
  text_search :: "string option"
  tags_in :: "string option"

text \<open>The \<open>options\<close> of the \<open>find\<close> call (the sort is always \<open>createdAt: -1\<close>).\<close>

record find_options =
  opt_limit :: jsnum
  opt_skip :: jsnum

record pagination =
  page :: jsnum
  limit :: jsnum
  total :: nat
  pages :: jsnum

record list_response =
  posts :: "post list"
  pagination :: pagination

fun truthy :: "string option \<Rightarrow> string option" where
  "truthy None = None"
| "truthy (Some v) = (if v = [] then None else Some v)"

text \<open>
  The handler. The store's \<open>find\<close> and \<open>countDocuments\<close> are parameters (the execution of
  queries belongs to the store); \<open>None\<close> is a rejected call, which the \<open>catch\<close> answers
  with 500.
\<close>

definition list_handler ::
  "(filter_query \<Rightarrow> find_options \<Rightarrow> post list option) \<Rightarrow> (filter_query \<Rightarrow> nat option)
   \<Rightarrow> list_request \<Rightarrow> error + list_response" where
  "list_handler db_find db_count req =
     (let pg = parseInt_param 1 (req_page req);
          lim = parseInt_param 10 (req_limit req);
          query = \<lparr>text_search = truthy (req_search req), tags_in = truthy (req_tag req)\<rparr>;
          options = \<lparr>opt_limit = Math_min lim 50, opt_skip = skip_of pg lim\<rparr>
      in case db_find query options of
           None \<Rightarrow> Inl (ServerError ''Failed to fetch posts'')
         | Some ps \<Rightarrow>
             (case db_count query of
                None \<Rightarrow> Inl (ServerError ''Failed to fetch posts'')
              | Some n \<Rightarrow>
                  Inr \<lparr>posts = ps,
                       pagination = \<lparr>page = pg, limit = lim, total = n, pages = pages_of n lim\<rparr>\<rparr>))"

section \<open>The language of an expression\<close>

text \<open>
  The pattern in words, for comparison: the language of an expression, and equality of
  strings up to the case of ASCII letters.
\<close>

inductive_set star :: "string set \<Rightarrow> string set" for A :: "string set" where
  star_Nil: "[] \<in> star A"
| star_app: "u \<in> A \<Longrightarrow> v \<in> star A \<Longrightarrow> u @ v \<in> star A"

fun lang :: "regexp \<Rightarrow> string set" where
  "lang Never = {}"
| "lang Eps = {[]}"
| "lang (Lit a) = {[c] | c. upper c = upper a}"
| "lang Dot = {[c] | c. \<not> is_line_terminator c}"
| "lang (Seq r s) = {u @ v | u v. u \<in> lang r \<and> v \<in> lang s}"
| "lang (Alt r s) = lang r \<union> lang s"
| "lang (Star r) = star (lang r)"

definition ieq :: "string \<Rightarrow> string \<Rightarrow> bool" where
  "ieq u w = (map upper u = map upper w)"

section \<open>Object ids\<close>

text \<open>
  The 24-hex-digit form of an ObjectId, read as a number: the instance of the
  parameter \<open>oid_of\<close> used in the concrete scenarios.
\<close>

definition ObjectId_of_hex :: "string \<Rightarrow> nat option" where
  "ObjectId_of_hex s =
     (if length s = 24 \<and> list_all (\<lambda>c. digit_value 16 c \<noteq> None) s
      then parse_digits 16 s None else None)"

section \<open>Termination of the probe\<close>

lemma digit_char_inj: "a < 10 \<Longrightarrow> b < 10 \<Longrightarrow> digit_char a = digit_char b \<Longrightarrow> a = b"
proof -
  assume a: "a < 10" and b: "b < 10" and e: "digit_char a = digit_char b"
  from e have "of_char (char_of (48 + a)) = (of_char (char_of (48 + b)) :: nat)"
    by (simp add: digit_char_def)
  with a b show "a = b" by simp
qed

lemma digits_not_Nil: "digits n \<noteq> []"
  by (subst digits.simps) simp

lemma digits_inj: "digits n = digits m \<Longrightarrow> n = m"
proof (induction n arbitrary: m rule: digits.induct)
  case (1 n)
  show ?case
  proof (cases "n < 10")
    case True
    note n = this
    show ?thesis
    proof (cases "m < 10")
      case True
      with n "1.prems" show ?thesis
        by (simp add: digit_char_inj)
    next
      case False
      with n "1.prems" have "[digit_char n] = digits (m div 10) @ [digit_char (m mod 10)]"
        by (subst (asm) digits.simps, subst (asm) (2) digits.simps) simp
      then show ?thesis using digits_not_Nil [of "m div 10"] by simp
    qed
  next
    case False
    note n = this
    show ?thesis
    proof (cases "m < 10")
      case True
      with n "1.prems" have "digits (n div 10) @ [digit_char (n mod 10)] = [digit_char m]"
        by (subst (asm) digits.simps, subst (asm) (2) digits.simps) simp
      then show ?thesis using digits_not_Nil [of "n div 10"] by simp
    next
      case False
      with n "1.prems"
      have e: "digits (n div 10) @ [digit_char (n mod 10)] = digits (m div 10) @ [digit_char (m mod 10)]"
        by (subst (asm) digits.simps, subst (asm) (2) digits.simps) simp
      then have "digits (n div 10) = digits (m div 10)"
        and d: "digit_char (n mod 10) = digit_char (m mod 10)" by simp_all
      with "1.IH" [OF n] have q: "n div 10 = m div 10" by blast
      from d have r: "n mod 10 = m mod 10" by (rule digit_char_inj [rotated 2]) simp_all
      from q r show ?thesis by (metis div_mult_mod_eq)
    qed
  qed
qed

lemma candidate_inj: "candidate base j = candidate base k \<Longrightarrow> j = k"
  by (simp add: candidate_def digits_inj)

lemma candidate_not_base: "candidate base k \<noteq> base"
  by (simp add: candidate_def)


lemma findOne_slug_None_iff:
  "findOne_slug ds s oid = None \<longleftrightarrow> s \<notin> slug ` {p \<in> set ds. post_id p \<noteq> oid}"
  by (auto simp: findOne_slug_def find_None_iff)

lemma finite_taken_candidates:
  "finite {k. findOne_slug ds (candidate base k) oid \<noteq> None}"
proof -
  have "{k. findOne_slug ds (candidate base k) oid \<noteq> None}
        = candidate base -` (slug ` {p \<in> set ds. post_id p \<noteq> oid})"
    unfolding findOne_slug_None_iff by auto
  moreover have "finite (candidate base -` (slug ` {p \<in> set ds. post_id p \<noteq> oid}))"
    by (rule finite_vimageI) (auto intro!: injI dest: candidate_inj)
  ultimately show ?thesis by simp
qed

lemma probe_measure_step:
  assumes "findOne_slug ds s oid \<noteq> None"
  shows "probe_measure (ds, oid, base, candidate base counter, Suc counter)
         < probe_measure (ds, oid, base, s, counter)"
proof -
  let ?P = "\<lambda>k. findOne_slug ds (candidate base k) oid \<noteq> None"
  let ?A = "\<lambda>c. {k. c \<le> k \<and> ?P k}"
  have fin: "finite (?A (Suc counter))"
    by (rule finite_subset [OF _ finite_taken_candidates [of ds base oid]]) auto
  have notin: "counter \<notin> ?A (Suc counter)" by simp
  show ?thesis
  proof (cases "?P counter")
    case True
    then have "?A counter = insert counter (?A (Suc counter))"
      by (auto simp: Suc_le_eq le_less)
    then have "card (?A counter) = Suc (card (?A (Suc counter)))"
      using card_insert_disjoint [OF fin notin] by (simp only:)
    with True assms show ?thesis
      unfolding probe_measure_def by (simp del: not_None_eq)
  next
    case False
    then have "?A counter = ?A (Suc counter)"
      by (auto simp: Suc_le_eq le_less)
    then have "card (?A counter) = card (?A (Suc counter))" by (simp only:)
    with False assms show ?thesis
      unfolding probe_measure_def by (simp del: not_None_eq)
  qed
qed

termination probe_loop
  by (relation "measure probe_measure") (simp_all add: probe_measure_step del: not_None_eq)

section \<open>What the probe returns\<close>

lemma nth_candidate_inj: "nth_candidate base j = nth_candidate base k \<Longrightarrow> j = k"
  using candidate_not_base [of base j] candidate_not_base [of base k]
  by (auto simp: nth_candidate_def dest: candidate_inj split: if_splits)

lemma nth_candidate_Suc: "nth_candidate base (Suc n) = candidate base (Suc n)"
  by (simp add: nth_candidate_def)

lemma probe_loop_from:
  "s = nth_candidate base n \<Longrightarrow> counter = Suc n \<Longrightarrow>
   \<exists>k\<ge>n. probe_loop ds oid base s counter = (nth_candidate base k, Suc k)
        \<and> findOne_slug ds (nth_candidate base k) oid = None
        \<and> (\<forall>j. n \<le> j \<and> j < k \<longrightarrow> findOne_slug ds (nth_candidate base j) oid \<noteq> None)"
proof (induction ds oid base s counter arbitrary: n rule: probe_loop.induct)
  case (1 ds oid base s counter)
  show ?case
  proof (cases "findOne_slug ds s oid = None")
    case True
    with "1.prems" have "probe_loop ds oid base s counter = (nth_candidate base n, Suc n)"
      by (subst probe_loop.simps) simp
    with True "1.prems" show ?thesis by (intro exI [of _ n]) auto
  next
    case False
    then have t: "findOne_slug ds s oid \<noteq> None" .
    have c: "candidate base counter = nth_candidate base (Suc n)"
      using "1.prems" by (simp add: nth_candidate_Suc)
    have "Suc counter = Suc (Suc n)" using "1.prems" by simp
    from "1.IH" [OF t c this]
    obtain k where k: "Suc n \<le> k"
      "probe_loop ds oid base (candidate base counter) (Suc counter) = (nth_candidate base k, Suc k)"
      "findOne_slug ds (nth_candidate base k) oid = None"
      "\<forall>j. Suc n \<le> j \<and> j < k \<longrightarrow> findOne_slug ds (nth_candidate base j) oid \<noteq> None"
      by blast
    from t k(2) have "probe_loop ds oid base s counter = (nth_candidate base k, Suc k)"
      by (subst probe_loop.simps) (simp del: not_None_eq)
    moreover have "\<forall>j. n \<le> j \<and> j < k \<longrightarrow> findOne_slug ds (nth_candidate base j) oid \<noteq> None"
    proof (intro allI impI)
      fix j assume "n \<le> j \<and> j < k"
      then consider "j = n" | "Suc n \<le> j \<and> j < k" by linarith
      then show "findOne_slug ds (nth_candidate base j) oid \<noteq> None"
        using t k(4) "1.prems" by cases (simp_all del: not_None_eq)
    qed
    ultimately show ?thesis using k(1,3) by (intro exI [of _ k]) simp
  qed
qed

lemma probe_loop_least:
  "\<exists>k. probe_loop ds oid base base 1 = (nth_candidate base k, Suc k)
       \<and> findOne_slug ds (nth_candidate base k) oid = None
       \<and> (\<forall>j<k. findOne_slug ds (nth_candidate base j) oid \<noteq> None)"
  using probe_loop_from [of base base 0 1 ds oid]
  by (auto simp: nth_candidate_def)

lemma taken_prefix_bound:
  assumes "\<forall>j<k. findOne_slug ds (nth_candidate base j) oid \<noteq> None"
  shows "k \<le> length ds"
proof -
  have "nth_candidate base ` {..<k} \<subseteq> slug ` set ds"
    using assms by (auto simp: findOne_slug_None_iff)
  then have "card (nth_candidate base ` {..<k}) \<le> card (slug ` set ds)"
    by (intro card_mono) simp_all
  moreover have "card (nth_candidate base ` {..<k}) = k"
    by (subst card_image) (auto intro!: inj_onI dest: nth_candidate_inj)
  moreover have "card (slug ` set ds) \<le> length ds"
    by (rule order_trans [OF card_image_le card_length]) simp
  ultimately show ?thesis by linarith
qed

section \<open>The matcher against the language of an expression\<close>

lemma upper_eq_nonletter:
  assumes "upper c = d" and "(of_char d :: nat) < 65 \<or> 90 < (of_char d :: nat)"
  shows "c = d"
proof (cases "97 \<le> (of_char c :: nat) \<and> (of_char c :: nat) \<le> 122")
  case True
  with assms(1) have "d = char_of (of_char c - 32 :: nat)" by (simp add: upper_def)
  then have "(of_char d :: nat) = (of_char c - 32) mod 256" by simp
  with True assms(2) show ?thesis by auto
next
  case False
  with assms(1) show ?thesis by (simp add: upper_def)
qed

lemma nullable_iff: "nullable r \<longleftrightarrow> [] \<in> lang r"
  by (induction r) (auto intro: star_Nil)

lemma star_Cons_iff:
  "c # w \<in> star A \<longleftrightarrow> (\<exists>u v. w = u @ v \<and> c # u \<in> A \<and> v \<in> star A)"
proof
  assume "c # w \<in> star A"
  then show "\<exists>u v. w = u @ v \<and> c # u \<in> A \<and> v \<in> star A"
  proof (induction "c # w" rule: star.induct)
    case (star_app u v)
    show ?case
    proof (cases u)
      case Nil
      with star_app show ?thesis by simp
    next
      case (Cons a u')
      with star_app.hyps show ?thesis by auto
    qed
  qed
next
  assume "\<exists>u v. w = u @ v \<and> c # u \<in> A \<and> v \<in> star A"
  then obtain u v where "w = u @ v" "c # u \<in> A" "v \<in> star A" by blast
  then show "c # w \<in> star A" using star_app [of "c # u" A v] by simp
qed

lemma Seq_I: "u \<in> lang r \<Longrightarrow> v \<in> lang s \<Longrightarrow> u @ v \<in> lang (Seq r s)"
  by auto

lemma in_SeqE:
  assumes "x \<in> lang (Seq r s)"
  obtains u v where "x = u @ v" and "u \<in> lang r" and "v \<in> lang s"
  using assms by auto

lemma in_Seq_iff: "x \<in> lang (Seq r s) \<longleftrightarrow> (\<exists>u v. x = u @ v \<and> u \<in> lang r \<and> v \<in> lang s)"
  by auto

lemma deriv_iff: "w \<in> lang (deriv c r) \<longleftrightarrow> c # w \<in> lang r"
proof (induction r arbitrary: w)
  case (Seq r s)
  show ?case
  proof
    assume "w \<in> lang (deriv c (Seq r s))"
    then consider u v where "w = u @ v" "u \<in> lang (deriv c r)" "v \<in> lang s"
      | "nullable r" "w \<in> lang (deriv c s)"
      by (auto split: if_splits)
    then show "c # w \<in> lang (Seq r s)"
    proof cases
      case 1
      then have "c # u \<in> lang r" using Seq.IH(1) by simp
      from Seq_I [OF this 1(3)] 1(1) show ?thesis by simp
    next
      case 2
      then have "[] \<in> lang r" "c # w \<in> lang s" using Seq.IH(2) nullable_iff by simp_all
      from Seq_I [OF this] show ?thesis by simp
    qed
  next
    assume "c # w \<in> lang (Seq r s)"
    then obtain u v where uv: "c # w = u @ v" "u \<in> lang r" "v \<in> lang s" by auto
    show "w \<in> lang (deriv c (Seq r s))"
    proof (cases u)
      case Nil
      with uv have "nullable r" "w \<in> lang (deriv c s)"
        using Seq.IH(2) nullable_iff by simp_all
      then show ?thesis by simp
    next
      case (Cons a u')
      with uv have "u' \<in> lang (deriv c r)" "w = u' @ v" using Seq.IH(1) by simp_all
      with uv(3) show ?thesis by auto
    qed
  qed
next
  case (Star r)
  show ?case
    by (auto simp: star_Cons_iff Star.IH)
qed auto

lemma test_iff: "test r w \<longleftrightarrow> w \<in> lang r"
  by (induction w arbitrary: r) (simp_all add: nullable_iff deriv_iff)

lemma Lit_Seq_iff:
  "x \<in> lang (Seq (Lit a) s) \<longleftrightarrow> (\<exists>c v. x = c # v \<and> upper c = upper a \<and> v \<in> lang s)"
proof
  assume "x \<in> lang (Seq (Lit a) s)"
  then show "\<exists>c v. x = c # v \<and> upper c = upper a \<and> v \<in> lang s" by auto
next
  assume "\<exists>c v. x = c # v \<and> upper c = upper a \<and> v \<in> lang s"
  then obtain c v where "x = c # v" "upper c = upper a" "v \<in> lang s" by blast
  then show "x \<in> lang (Seq (Lit a) s)" using Seq_I [of "[c]" "Lit a" v s] by simp
qed

lemma Dot_Seq_iff:
  "x \<in> lang (Seq Dot s) \<longleftrightarrow> (\<exists>c v. x = c # v \<and> \<not> is_line_terminator c \<and> v \<in> lang s)"
proof
  assume "x \<in> lang (Seq Dot s)"
  then show "\<exists>c v. x = c # v \<and> \<not> is_line_terminator c \<and> v \<in> lang s" by auto
next
  assume "\<exists>c v. x = c # v \<and> \<not> is_line_terminator c \<and> v \<in> lang s"
  then obtain c v where "x = c # v" "\<not> is_line_terminator c" "v \<in> lang s" by blast
  then show "x \<in> lang (Seq Dot s)" using Seq_I [of "[c]" Dot v s] by simp
qed

lemma lang_word: "lang (word w) = {u. map upper u = map upper w}"
proof (induction w)
  case Nil
  show ?case by simp
next
  case (Cons a w)
  show ?case
  proof (rule set_eqI)
    fix u
    show "u \<in> lang (word (a # w)) \<longleftrightarrow> u \<in> {u. map upper u = map upper (a # w)}"
      unfolding word.simps Lit_Seq_iff Cons.IH by (cases u) auto
  qed
qed

lemma star_Dot:
  "x \<in> star {[c] |c. \<not> is_line_terminator c} \<longleftrightarrow> (\<forall>c\<in>set x. \<not> is_line_terminator c)"
proof (induction x)
  case Nil
  show ?case by (simp add: star_Nil)
next
  case (Cons a x)
  show ?case by (auto simp: star_Cons_iff Cons.IH)
qed

lemma lang_plus_Dot:
  "x \<in> lang (Seq Dot (Star Dot)) \<longleftrightarrow> x \<noteq> [] \<and> (\<forall>c\<in>set x. \<not> is_line_terminator c)"
  unfolding Dot_Seq_iff by (cases x) (auto simp: star_Dot)

lemma lang_word_ieq: "u \<in> lang (word w) \<longleftrightarrow> ieq u w"
  by (simp add: lang_word ieq_def)

lemma ieq_append: "ieq a a' \<Longrightarrow> ieq b b' \<Longrightarrow> ieq (a @ b) (a' @ b')"
  by (simp add: ieq_def)

lemma ieq_split: "ieq u (a @ b) \<Longrightarrow> \<exists>p q. u = p @ q \<and> ieq p a \<and> ieq q b"
proof -
  assume "ieq u (a @ b)"
  then have e: "map upper u = map upper a @ map upper b" by (simp add: ieq_def)
  then have "map upper (take (length a) u) = map upper a"
    and "map upper (drop (length a) u) = map upper b"
    by (simp_all add: take_map [symmetric] drop_map [symmetric])
  then have "u = take (length a) u @ drop (length a) u \<and> ieq (take (length a) u) a
      \<and> ieq (drop (length a) u) b"
    by (simp add: ieq_def)
  then show ?thesis by blast
qed

lemma lang_ext:
  "e \<in> lang (Alt (word ''jpg'') (Alt (word ''jpeg'') (Alt (word ''png'')
      (Alt (word ''gif'') (word ''webp'')))))
   \<longleftrightarrow> ieq e ''jpg'' \<or> ieq e ''jpeg'' \<or> ieq e ''png'' \<or> ieq e ''gif'' \<or> ieq e ''webp''"
  unfolding lang.simps(6) Un_iff lang_word_ieq by (rule refl)

lemma lang_dot_lit: "d \<in> lang (Lit CHR ''.'') \<longleftrightarrow> d = ''.''"
proof
  assume "d \<in> lang (Lit CHR ''.'')"
  then obtain c0 where c0: "d = [c0]" "upper c0 = upper CHR ''.''" by auto
  have "upper CHR ''.'' = CHR ''.''" by (simp add: upper_def)
  with c0 show "d = ''.''" using upper_eq_nonletter [of c0 "CHR ''.''"] by simp
next
  assume "d = ''.''"
  then show "d \<in> lang (Lit CHR ''.'')" by simp
qed

lemma lang_opt_s: "s \<in> lang (Alt (Lit CHR ''s'') Eps) \<longleftrightarrow> ieq s ''s'' \<or> s = []"
  by (auto simp: ieq_def)

lemma lang_scheme:
  "u \<in> lang (Seq (word ''http'') (Seq (Alt (Lit CHR ''s'') Eps) (word ''://'')))
   \<longleftrightarrow> ieq u ''http://'' \<or> ieq u ''https://''"
proof
  assume "u \<in> lang (Seq (word ''http'') (Seq (Alt (Lit CHR ''s'') Eps) (word ''://'')))"
  then obtain h s c where u: "u = h @ s @ c" and h: "ieq h ''http''"
    and s: "ieq s ''s'' \<or> s = []" and c: "ieq c ''://''"
    unfolding in_Seq_iff lang_word_ieq lang_opt_s by blast
  from s show "ieq u ''http://'' \<or> ieq u ''https://''"
  proof
    assume "ieq s ''s''"
    from ieq_append [OF h ieq_append [OF this c]] u show ?thesis by simp
  next
    assume "s = []"
    with ieq_append [OF h c] u show ?thesis by simp
  qed
next
  assume "ieq u ''http://'' \<or> ieq u ''https://''"
  then show "u \<in> lang (Seq (word ''http'') (Seq (Alt (Lit CHR ''s'') Eps) (word ''://'')))"
  proof
    assume "ieq u ''http://''"
    then have "ieq u (''http'' @ ''://'')" by simp
    from ieq_split [OF this] obtain h c where "u = h @ [] @ c" "ieq h ''http''" "ieq c ''://''"
      by auto
    then show ?thesis unfolding in_Seq_iff lang_word_ieq lang_opt_s by blast
  next
    assume "ieq u ''https://''"
    then have "ieq u (''http'' @ ''s://'')" by simp
    from ieq_split [OF this] obtain h r where hr: "u = h @ r" "ieq h ''http''" "ieq r ''s://''"
      by auto
    from hr(3) have "ieq r (''s'' @ ''://'')" by simp
    from ieq_split [OF this] obtain s c where "r = s @ c" "ieq s ''s''" "ieq c ''://''"
      by auto
    with hr show ?thesis unfolding in_Seq_iff lang_word_ieq lang_opt_s by blast
  qed
qed

lemma coverImage_pattern_iff:
  "test coverImage_pattern v \<longleftrightarrow>
     (\<exists>scheme x ext. v = scheme @ x @ ''.'' @ ext
        \<and> (ieq scheme ''http://'' \<or> ieq scheme ''https://'')
        \<and> x \<noteq> [] \<and> (\<forall>c\<in>set x. \<not> is_line_terminator c)
        \<and> (ieq ext ''jpg'' \<or> ieq ext ''jpeg'' \<or> ieq ext ''png'' \<or> ieq ext ''gif''
            \<or> ieq ext ''webp''))"
  (is "?L \<longleftrightarrow> ?R")
proof
  assume ?L
  then have "v \<in> lang coverImage_pattern" by (simp only: test_iff)
  then have "v \<in> lang (Seq (Seq (word ''http'') (Seq (Alt (Lit CHR ''s'') Eps) (word ''://'')))
       (Seq (Seq Dot (Star Dot))
         (Seq (Lit CHR ''.'')
           (Alt (word ''jpg'') (Alt (word ''jpeg'') (Alt (word ''png'')
             (Alt (word ''gif'') (word ''webp''))))))))"
    by (simp only: coverImage_pattern_def)
  then obtain a b where ab: "v = a @ b"
    and a: "a \<in> lang (Seq (word ''http'') (Seq (Alt (Lit CHR ''s'') Eps) (word ''://'')))"
    and b: "b \<in> lang (Seq (Seq Dot (Star Dot)) (Seq (Lit CHR ''.'')
      (Alt (word ''jpg'') (Alt (word ''jpeg'') (Alt (word ''png'')
        (Alt (word ''gif'') (word ''webp'')))))))"
    by (rule in_SeqE)
  from b obtain x c where xc: "b = x @ c" and x: "x \<in> lang (Seq Dot (Star Dot))"
    and c: "c \<in> lang (Seq (Lit CHR ''.'')
      (Alt (word ''jpg'') (Alt (word ''jpeg'') (Alt (word ''png'')
        (Alt (word ''gif'') (word ''webp''))))))"
    by (rule in_SeqE)
  from c obtain d e where de: "c = d @ e" and d: "d \<in> lang (Lit CHR ''.'')"
    and e: "e \<in> lang (Alt (word ''jpg'') (Alt (word ''jpeg'') (Alt (word ''png'')
      (Alt (word ''gif'') (word ''webp'')))))"
    by (rule in_SeqE)
  have "v = a @ x @ ''.'' @ e" using ab xc de lang_dot_lit [THEN iffD1, OF d] by simp
  moreover have "ieq a ''http://'' \<or> ieq a ''https://''"
    using a by (rule lang_scheme [THEN iffD1])
  moreover have "x \<noteq> [] \<and> (\<forall>c\<in>set x. \<not> is_line_terminator c)"
    using x by (rule lang_plus_Dot [THEN iffD1])
  moreover have "ieq e ''jpg'' \<or> ieq e ''jpeg'' \<or> ieq e ''png'' \<or> ieq e ''gif'' \<or> ieq e ''webp''"
    using e by (rule lang_ext [THEN iffD1])
  ultimately show ?R by blast
next
  assume ?R
  then obtain scheme x ext where v: "v = scheme @ x @ ''.'' @ ext"
    and sch: "ieq scheme ''http://'' \<or> ieq scheme ''https://''"
    and x: "x \<noteq> [] \<and> (\<forall>c\<in>set x. \<not> is_line_terminator c)"
    and ext: "ieq ext ''jpg'' \<or> ieq ext ''jpeg'' \<or> ieq ext ''png'' \<or> ieq ext ''gif''
      \<or> ieq ext ''webp''"
    by blast
  have a: "scheme \<in> lang (Seq (word ''http'') (Seq (Alt (Lit CHR ''s'') Eps) (word ''://'')))"
    using sch by (rule lang_scheme [THEN iffD2])
  have x': "x \<in> lang (Seq Dot (Star Dot))" using x by (rule lang_plus_Dot [THEN iffD2])
  have d: "''.'' \<in> lang (Lit CHR ''.'')" by (rule lang_dot_lit [THEN iffD2]) (rule refl)
  have e: "ext \<in> lang (Alt (word ''jpg'') (Alt (word ''jpeg'') (Alt (word ''png'')
      (Alt (word ''gif'') (word ''webp'')))))"
    using ext by (rule lang_ext [THEN iffD2])
  have "scheme @ x @ ''.'' @ ext \<in> lang coverImage_pattern"
    unfolding coverImage_pattern_def by (intro Seq_I a x' d e)
  then show ?L by (simp only: test_iff v)
qed

section \<open>Splitting, trimming and the tags\<close>

lemma split_comma_not_Nil: "split_comma s \<noteq> []"
  by (induction s) (auto split: list.splits)

lemma join_split_comma: "join_comma (split_comma s) = s"
proof (induction s)
  case Nil
  show ?case by simp
next
  case (Cons c cs)
  obtain w ws where ws: "split_comma cs = w # ws"
    using split_comma_not_Nil [of cs] by (cases "split_comma cs") auto
  show ?case
  proof (cases "c = CHR '',''")
    case True
    with Cons ws show ?thesis by simp
  next
    case False
    with Cons ws show ?thesis by (cases ws) simp_all
  qed
qed

lemma split_comma_pieces: "w \<in> set (split_comma s) \<Longrightarrow> CHR '','' \<notin> set w"
  by (induction s arbitrary: w) (auto split: if_splits list.splits)

lemma trim_ends:
  assumes "trim s \<noteq> []"
  shows "\<not> is_space (hd (trim s))" and "\<not> is_space (last (trim s))"
proof -
  let ?r = "dropWhile is_space s"
  let ?q = "dropWhile is_space (rev ?r)"
  from assms have q: "?q \<noteq> []" by (simp add: trim_def)
  have r: "?r \<noteq> []"
  proof
    assume "?r = []"
    with q show False by simp
  qed
  have "last (trim s) = hd ?q" using q by (simp add: trim_def last_rev)
  with q show "\<not> is_space (last (trim s))" by (simp add: hd_dropWhile)
  have "hd (trim s) = last ?q" using q by (simp add: trim_def hd_rev)
  also have "last ?q = last (rev ?r)"
  proof -
    have "rev ?r = takeWhile is_space (rev ?r) @ ?q" by simp
    then show ?thesis using q by (metis last_appendR)
  qed
  also have "\<dots> = hd ?r" using r by (simp add: last_rev)
  finally show "\<not> is_space (hd (trim s))" using r by (simp add: hd_dropWhile)
qed

lemma processedTags_filter:
  "processedTags ti =
     (case ti of NoTags \<Rightarrow> [] | TagOther \<Rightarrow> []
      | TagArray xs \<Rightarrow> filter (\<lambda>t. t \<noteq> []) (map trim xs)
      | TagString s \<Rightarrow> if s = [] then [] else filter (\<lambda>t. t \<noteq> []) (map trim (split_comma s)))"
proof -
  have "Boolean = (\<lambda>t. t \<noteq> [])" by (rule ext) (simp add: Boolean_def)
  then show ?thesis by (cases ti) simp_all
qed

lemma processedTags_trimmed:
  "t \<in> set (processedTags ti) \<Longrightarrow> t \<noteq> [] \<and> \<not> is_space (hd t) \<and> \<not> is_space (last t)"
  by (cases ti) (auto simp: Boolean_def trim_ends split: if_splits)

lemma trim_trim: "trim (trim s) = trim s"
proof (cases "trim s = []")
  case True
  have "trim [] = []" by (simp add: trim_def)
  with True show ?thesis by simp
next
  case False
  from trim_ends [OF False] have h: "\<not> is_space (hd (trim s))" and l: "\<not> is_space (last (trim s))"
    by simp_all
  from False h have a: "dropWhile is_space (trim s) = trim s"
    by (cases "trim s") simp_all
  from False l have "\<not> is_space (hd (rev (trim s)))" by (simp add: hd_rev)
  with False have b: "dropWhile is_space (rev (trim s)) = rev (trim s)"
    by (cases "rev (trim s)") simp_all
  show ?thesis
    by (subst (1) trim_def) (simp only: a b rev_rev_ident)
qed

lemma map_trim_processedTags: "map trim (processedTags ti) = processedTags ti"
proof -
  have "\<And>xs. map trim (filter Boolean (map trim xs)) = filter Boolean (map trim xs)"
  proof -
    fix xs :: "string list"
    show "map trim (filter Boolean (map trim xs)) = filter Boolean (map trim xs)"
      by (induction xs) (simp_all add: trim_trim)
  qed
  then show ?thesis by (cases ti) simp_all
qed

lemma set_tags_eq: "set_tags b = processedTags (body_tags b)"
  by (simp add: set_tags_def map_trim_processedTags)

section \<open>The store operations and the handlers\<close>

lemma findByIdAndUpdate_fst:
  "map_option fst (findByIdAndUpdate ds oid f) = map_option f (findById ds oid)"
  by (induction ds) (auto simp: findById_def split: option.splits)


lemma findByIdAndDelete_others:
  "findByIdAndDelete ds oid = Some (q, ds') \<Longrightarrow> i \<noteq> oid \<Longrightarrow> findById ds' i = findById ds i"
  by (induction ds arbitrary: ds') (auto simp: findById_def split: option.splits if_splits)

lemma delete_handler_others:
  "oid_of ident \<noteq> Some i \<Longrightarrow>
   findById (docs (snd (delete_handler oid_of coll ident))) i = findById (docs coll) i"
  by (auto simp: delete_handler_def findByIdAndDelete_others split: option.splits)

lemma count_list_filter:
  "count_list (filter P xs) t = (if P t then count_list xs t else 0)"
  by (induction xs) auto

lemma post_handler_Inr:
  assumes "fst (post_handler now coll b) = Inr p"
  shows "p = (new_Post (next_oid coll) now b)\<lparr>updatedAt := now\<rparr>"
    and "validate_body (body_title b) (body_content b) = None"
    and "body_errors b = []"
  using assms
  by (auto simp: post_handler_def save_def Let_def new_Post_def body_errors_def
      split: option.splits sum.splits if_splits)

lemma post_handler_tags:
  "fst (post_handler now coll b) = Inr p \<Longrightarrow> tags p = processedTags (body_tags b)"
  using post_handler_Inr(1) [of now coll b p] by (simp add: new_Post_def set_tags_eq)

lemma post_handler_no_slug: "fst (post_handler now coll b) = Inr p \<Longrightarrow> slug p = []"
  using post_handler_Inr(1) [of now coll b p] by (simp add: new_Post_def)

lemma put_handler_Inr:
  assumes "fst (put_handler oid_of now coll ident b) = Inr r"
  shows "\<exists>i q. oid_of ident = Some i \<and> findById (docs coll) i = Some q
           \<and> validate_body (body_title b) (body_content b) = None \<and> body_errors b = []
           \<and> r = put_update now b q"
proof -
  from assms obtain i ds where i: "oid_of ident = Some i"
      "validate_body (body_title b) (body_content b) = None" "body_errors b = []"
      "findByIdAndUpdate (docs coll) i (put_update now b) = Some (r, ds)"
    by (auto simp: put_handler_def split: option.splits if_splits)
  from i(4) have "map_option (put_update now b) (findById (docs coll) i) = Some r"
    using findByIdAndUpdate_fst [of "docs coll" i "put_update now b"] by simp
  with i(1,2,3) show ?thesis by auto
qed

lemma put_handler_tags:
  "fst (put_handler oid_of now coll ident b) = Inr p \<Longrightarrow> tags p = processedTags (body_tags b)"
  using put_handler_Inr [of oid_of now coll ident b p] by (auto simp: put_update_def set_tags_eq)

lemma put_handler_slug:
  "fst (put_handler oid_of now coll ident b) = Inr r \<Longrightarrow>
   \<exists>i q. oid_of ident = Some i \<and> findById (docs coll) i = Some q \<and> slug r = slug q"
  using put_handler_Inr [of oid_of now coll ident b r] by (auto simp: put_update_def)

section \<open>The hook on a run of documents with one title\<close>

lemma probe_loop_sequence:
  assumes slugs: "map slug ds = map (nth_candidate base) [0..<n]"
    and ids: "\<forall>p\<in>set ds. post_id p \<noteq> oid"
  shows "probe_loop ds oid base base 1 = (nth_candidate base n, Suc n)"
proof -
  have "{p \<in> set ds. post_id p \<noteq> oid} = set ds" using ids by auto
  then have "slug ` {p \<in> set ds. post_id p \<noteq> oid} = set (map slug ds)" by simp
  also have "\<dots> = nth_candidate base ` {0..<n}" by (simp add: slugs)
  finally have free: "\<And>s. findOne_slug ds s oid = None \<longleftrightarrow> s \<notin> nth_candidate base ` {0..<n}"
    by (simp add: findOne_slug_None_iff)
  have free_nth: "\<And>j. findOne_slug ds (nth_candidate base j) oid = None \<longleftrightarrow> n \<le> j"
  proof -
    fix j
    have "nth_candidate base j \<in> nth_candidate base ` {0..<n} \<longleftrightarrow> j < n"
      by (auto dest: nth_candidate_inj)
    then show "findOne_slug ds (nth_candidate base j) oid = None \<longleftrightarrow> n \<le> j"
      by (simp add: free not_less)
  qed
  obtain k where k: "probe_loop ds oid base base 1 = (nth_candidate base k, Suc k)"
    "findOne_slug ds (nth_candidate base k) oid = None"
    "\<forall>j<k. findOne_slug ds (nth_candidate base j) oid \<noteq> None"
    using probe_loop_least by blast
  from k(2) have "n \<le> k" by (simp add: free_nth)
  moreover have "\<not> n < k"
  proof
    assume "n < k"
    with k(3) have "findOne_slug ds (nth_candidate base n) oid \<noteq> None" by blast
    then show False by (simp add: free_nth)
  qed
  ultimately have "k = n" by simp
  with k(1) show ?thesis by simp
qed

lemma pre_validate_sequence:
  assumes "title this \<noteq> []" and "slug this = []"
    and "map slug ds = map (nth_candidate (slugify (title this))) [0..<n]"
    and "\<forall>p\<in>set ds. post_id p \<noteq> post_id this"
  shows "slug (pre_validate slugify ds now m this) = nth_candidate (slugify (title this)) n"
  using assms(1,2) probe_loop_sequence [OF assms(3,4)]
  by (simp add: pre_validate_def Let_def)


section \<open>The claims\<close>

text \<open>
  C10. The probe loop of the slug hook terminates for every finite collection
  (\<open>probe_loop\<close> is a total function: its termination is proved above, with the taken
  candidates still ahead as the measure). Started at the base slug with \<open>counter = 1\<close>, it
  makes at most one \<open>findOne\<close> call more than there are posts, the slug it returns is free,
  and the candidates \<open>base\<close>, \<open>base-1\<close>, \<open>base-2\<close>, ... are pairwise distinct.
\<close>

theorem probe_loop_bound:
  "snd (probe_loop ds oid base base 1) \<le> length ds + 1
   \<and> findOne_slug ds (fst (probe_loop ds oid base base 1)) oid = None
   \<and> inj (nth_candidate base)"
proof -
  obtain k where k: "probe_loop ds oid base base 1 = (nth_candidate base k, Suc k)"
    "findOne_slug ds (nth_candidate base k) oid = None"
    "\<forall>j<k. findOne_slug ds (nth_candidate base j) oid \<noteq> None"
    using probe_loop_least by blast
  from taken_prefix_bound [OF k(3)] k(1,2) show ?thesis
    by (auto intro!: injI dest: nth_candidate_inj)
qed

text \<open>
  C8. The validator accepts an absent or empty \<open>coverImage\<close>. It accepts a non-empty
  value exactly when the value matches \<open>^https?://.+\.(jpg|jpeg|png|gif|webp)$\<close> without
  regard to case: a scheme \<open>http://\<close> or \<open>https://\<close>, then at least one character, none
  of them a line terminator, then a dot and one of the five extensions. So
  \<open>http://x.com/img.PNG\<close> is accepted and \<open>http://x.com/img.bmp\<close> is rejected.
\<close>

theorem coverImage_validator_pattern:
  "coverImage_validator None
   \<and> coverImage_validator (Some [])
   \<and> (coverImage_validator (Some v) \<longleftrightarrow>
        v = [] \<or>
        (\<exists>scheme x ext. v = scheme @ x @ ''.'' @ ext
          \<and> (ieq scheme ''http://'' \<or> ieq scheme ''https://'')
          \<and> x \<noteq> [] \<and> (\<forall>c\<in>set x. \<not> is_line_terminator c)
          \<and> (ieq ext ''jpg'' \<or> ieq ext ''jpeg'' \<or> ieq ext ''png'' \<or> ieq ext ''gif''
              \<or> ieq ext ''webp'')))
   \<and> coverImage_validator (Some ''http://x.com/img.PNG'')
   \<and> \<not> coverImage_validator (Some ''http://x.com/img.bmp'')"
proof -
  have "coverImage_validator (Some ''http://x.com/img.PNG'')" by code_simp
  moreover have "\<not> coverImage_validator (Some ''http://x.com/img.bmp'')" by code_simp
  moreover have "coverImage_validator (Some v) \<longleftrightarrow>
        v = [] \<or>
        (\<exists>scheme x ext. v = scheme @ x @ ''.'' @ ext
          \<and> (ieq scheme ''http://'' \<or> ieq scheme ''https://'')
          \<and> x \<noteq> [] \<and> (\<forall>c\<in>set x. \<not> is_line_terminator c)
          \<and> (ieq ext ''jpg'' \<or> ieq ext ''jpeg'' \<or> ieq ext ''png'' \<or> ieq ext ''gif''
              \<or> ieq ext ''webp''))"
    unfolding coverImage_validator.simps coverImage_pattern_iff by simp
  ultimately show ?thesis by simp
qed

theorem coverImage_validator_pattern_witness:
  "coverImage_validator (Some ''https://a.io/p.Jpeg'')
   \<and> ieq ''https://'' ''https://'' \<and> ieq ''Jpeg'' ''jpeg''
   \<and> list_all (\<lambda>c. \<not> is_line_terminator c) ''a.io/p''"
proof -
  have a: "ieq ''https://'' ''https://''" by (simp add: ieq_def)
  have b: "ieq ''Jpeg'' ''jpeg''" by code_simp
  have c: "\<forall>c\<in>set ''a.io/p''. \<not> is_line_terminator c" by (simp add: is_line_terminator_def)
  have d: "''https://a.io/p.Jpeg'' = ''https://'' @ ''a.io/p'' @ ''.'' @ ''Jpeg''" by simp
  have "coverImage_validator (Some ''https://a.io/p.Jpeg'')"
    using coverImage_validator_pattern [of "''https://a.io/p.Jpeg''"] a b c d by blast
  with a b c show ?thesis by (simp add: list_all_iff)
qed

text \<open>
  C7. Tag normalization takes an array of strings or one comma-separated string. The
  string form is split at the commas (the pieces, joined with commas again, are the
  input, and no piece holds a comma); each entry is trimmed, the entries that become
  empty are dropped and the order is kept, so every resulting tag is non-empty with no
  white space at either end. \<open>"a, b ,, c"\<close> yields \<open>["a","b","c"]\<close> and
  \<open>["a","","b "]\<close> yields \<open>["a","b"]\<close>.
\<close>

theorem processedTags_forms:
  "processedTags (TagArray xs) = filter (\<lambda>t. t \<noteq> []) (map trim xs)
   \<and> processedTags (TagString s) =
       (if s = [] then [] else filter (\<lambda>t. t \<noteq> []) (map trim (split_comma s)))
   \<and> join_comma (split_comma s) = s
   \<and> list_all (\<lambda>w. CHR '','' \<notin> set w) (split_comma s)
   \<and> list_all (\<lambda>t. t \<noteq> [] \<and> \<not> is_space (hd t) \<and> \<not> is_space (last t)) (processedTags ti)
   \<and> processedTags (TagString ''a, b ,, c'') = [''a'', ''b'', ''c'']
   \<and> processedTags (TagArray [''a'', '''', ''b '']) = [''a'', ''b'']"
proof -
  have "processedTags (TagString ''a, b ,, c'') = [''a'', ''b'', ''c'']" by code_simp
  moreover have "processedTags (TagArray [''a'', '''', ''b '']) = [''a'', ''b'']" by code_simp
  moreover have "list_all (\<lambda>w. CHR '','' \<notin> set w) (split_comma s)"
    by (simp add: list_all_iff split_comma_pieces)
  moreover have "list_all (\<lambda>t. t \<noteq> [] \<and> \<not> is_space (hd t) \<and> \<not> is_space (last t)) (processedTags ti)"
    unfolding list_all_iff using processedTags_trimmed by blast
  moreover have "processedTags (TagArray xs) = filter (\<lambda>t. t \<noteq> []) (map trim xs)"
    using processedTags_filter [of "TagArray xs"] by simp
  moreover have "processedTags (TagString s) =
       (if s = [] then [] else filter (\<lambda>t. t \<noteq> []) (map trim (split_comma s)))"
    using processedTags_filter [of "TagString s"] by simp
  ultimately show ?thesis using join_split_comma [of s] by blast
qed



text \<open>
  C1. A list request with \<open>limit=100\<close>: the store's \<open>find\<close> is called with the limit 50
  (and answers only then, in this run), and the response's \<open>pagination.limit\<close> is 100,
  with \<open>pages\<close> counted in hundreds. The cap of \<open>options.limit\<close> does not reach the
  response.
\<close>

theorem list_limit_uncapped:
  "list_handler (\<lambda>q opts. if opt_limit opts = Fin 50 \<and> opt_skip opts = Fin 0 then Some [] else None)
     (\<lambda>q. Some 120)
     \<lparr>req_page = None, req_limit = Some ''100'', req_search = None, req_tag = None\<rparr>
   = Inr \<lparr>posts = [],
          pagination = \<lparr>page = Fin 1, limit = Fin 100, total = 120, pages = Fin 2\<rparr>\<rparr>"
  by code_simp

text \<open>
  C2. An update that changes the title derives no slug. As the server wires the router,
  the post created with the title \<open>Hello World\<close> has no slug, and the update request
  with the title \<open>Goodbye World\<close> answers with the new title and still no slug. A stored
  post that carries the slug \<open>hello-world\<close> keeps it under the same update, since
  \<open>findByIdAndUpdate\<close> runs no document hook. The hook of \<open>models/Post.js\<close> itself, run
  on that document with the title modified, derives \<open>goodbye-world\<close>.
\<close>

theorem put_keeps_slug:
  "map_sum id (\<lambda>p. (title p, slug p))
     (fst (put_handler ObjectId_of_hex 2000
        (snd (post_handler 1000 empty_collection
           \<lparr>body_title = Some ''Hello World'', body_content = Some ''Some content here'',
            body_excerpt = None, body_coverImage = None, body_tags = NoTags\<rparr>))
        ''000000000000000000000000''
        \<lparr>body_title = Some ''Goodbye World'', body_content = Some ''Some content here'',
         body_excerpt = None, body_coverImage = None, body_tags = NoTags\<rparr>))
   = Inr (''Goodbye World'', [])
   \<and> map_sum id (\<lambda>p. (title p, slug p))
     (fst (put_handler ObjectId_of_hex 2000
        \<lparr>docs = [\<lparr>post_id = 0, title = ''Hello World'', slug = ''hello-world'',
                   content = ''Some content here'', excerpt = None, tags = [],
                   coverImage = None, createdAt = 1000, updatedAt = 1000\<rparr>],
         next_oid = 1\<rparr>
        ''000000000000000000000000''
        \<lparr>body_title = Some ''Goodbye World'', body_content = Some ''Some content here'',
         body_excerpt = None, body_coverImage = None, body_tags = NoTags\<rparr>))
   = Inr (''Goodbye World'', ''hello-world'')
   \<and> slug (pre_validate slugify_model [] 2000 True
        \<lparr>post_id = 0, title = ''Goodbye World'', slug = ''hello-world'',
         content = ''Some content here'', excerpt = None, tags = [], coverImage = None,
         createdAt = 1000, updatedAt = 1000\<rparr>) = ''goodbye-world''"
  by code_simp

text \<open>
  C3, as the claim states it, fails: a create request whose \<open>tags\<close> array holds the same
  tag twice stores it twice.
\<close>

theorem duplicate_tags_stored:
  "map (\<lambda>p. tags p)
     (docs (snd (post_handler 1000 empty_collection
        \<lparr>body_title = Some ''Hello World'', body_content = Some ''Some content here'',
         body_excerpt = None, body_coverImage = None,
         body_tags = TagArray [''a'', ''a'']\<rparr>))) = [[''a'', ''a'']]
   \<and> \<not> distinct [''a'', ''a'']"
  by code_simp

text \<open>
  C3, amended. For every create or update request, the blank entries of the tags input
  are removed during normalization and the duplicates are kept: no stored tag is empty,
  every non-empty tag occurs in the result as often as among the trimmed entries of the
  input, and the tags of the answered post are the normalized ones.
\<close>

theorem blank_tags_removed_duplicates_kept:
  "[] \<notin> set (processedTags ti)
   \<and> (t \<noteq> [] \<longrightarrow> count_list (processedTags (TagArray xs)) t = count_list (map trim xs) t)
   \<and> (t \<noteq> [] \<and> s \<noteq> [] \<longrightarrow>
        count_list (processedTags (TagString s)) t = count_list (map trim (split_comma s)) t)
   \<and> (fst (post_handler now coll b) = Inr p \<longrightarrow> tags p = processedTags (body_tags b))
   \<and> (fst (put_handler oid_of now coll ident b) = Inr q \<longrightarrow> tags q = processedTags (body_tags b))"
proof -
  have "[] \<notin> set (processedTags ti)" using processedTags_trimmed [of "[]" ti] by blast
  moreover have "t \<noteq> [] \<longrightarrow> count_list (processedTags (TagArray xs)) t = count_list (map trim xs) t"
    by (simp add: count_list_filter Boolean_def)
  moreover have "t \<noteq> [] \<and> s \<noteq> [] \<longrightarrow>
        count_list (processedTags (TagString s)) t = count_list (map trim (split_comma s)) t"
    by (simp add: count_list_filter Boolean_def)
  ultimately show ?thesis using post_handler_tags put_handler_tags by blast
qed

theorem blank_tags_removed_duplicates_kept_witness:
  "''a'' \<noteq> [] \<and> count_list (processedTags (TagArray [''a'', '' '', '' a''])) ''a'' = 2
   \<and> ''a, ,a'' \<noteq> [] \<and> count_list (processedTags (TagString ''a, ,a'')) ''a'' = 2"
proof -
  have h: "''a'' \<noteq> [] \<and> ''a, ,a'' \<noteq> []" by simp
  have c1: "count_list (map trim [''a'', '' '', '' a'']) ''a'' = 2" by code_simp
  have c2: "count_list (map trim (split_comma ''a, ,a'')) ''a'' = 2" by code_simp
  from h c1 blank_tags_removed_duplicates_kept [where t = "''a''" and xs = "[''a'', '' '', '' a'']"]
  have r1: "count_list (processedTags (TagArray [''a'', '' '', '' a''])) ''a'' = 2" by metis
  from h c2 blank_tags_removed_duplicates_kept [where t = "''a''" and s = "''a, ,a''"]
  have r2: "count_list (processedTags (TagString ''a, ,a'')) ''a'' = 2" by metis
  from h r1 r2 show ?thesis by blast
qed




text \<open>
  C4. Two posts created one after another with the title \<open>Hello World\<close>, on the empty
  collection: as the server wires the router, both are stored without a slug, so no
  \<open>hello-world\<close>, \<open>hello-world-1\<close> is assigned. The hook of \<open>models/Post.js\<close>, run on
  the same two documents one after the other, assigns \<open>hello-world\<close> and then
  \<open>hello-world-1\<close>; the router's model does not have it.
\<close>

theorem created_posts_have_no_slug:
  "map (\<lambda>p. (post_id p, title p, slug p))
     (docs (snd (post_handler 2000
        (snd (post_handler 1000 empty_collection
           \<lparr>body_title = Some ''Hello World'', body_content = Some ''Some content here'',
            body_excerpt = None, body_coverImage = None, body_tags = NoTags\<rparr>))
        \<lparr>body_title = Some ''Hello World'', body_content = Some ''Other content here'',
         body_excerpt = None, body_coverImage = None, body_tags = NoTags\<rparr>)))
   = [(0, ''Hello World'', []), (1, ''Hello World'', [])]
   \<and> slug (pre_validate slugify_model [] 1000 True
        \<lparr>post_id = 0, title = ''Hello World'', slug = [],
         content = ''Some content here'', excerpt = None, tags = [], coverImage = None,
         createdAt = 1000, updatedAt = 1000\<rparr>) = ''hello-world''
   \<and> slug (pre_validate slugify_model
        [\<lparr>post_id = 0, title = ''Hello World'', slug = ''hello-world'',
          content = ''Some content here'', excerpt = None, tags = [], coverImage = None,
          createdAt = 1000, updatedAt = 1000\<rparr>] 2000 True
        \<lparr>post_id = 1, title = ''Hello World'', slug = [],
         content = ''Other content here'', excerpt = None, tags = [], coverImage = None,
         createdAt = 2000, updatedAt = 2000\<rparr>) = ''hello-world-1''"
  by code_simp

text \<open>
  C5. The scenario of the claim, as the server wires the router: two posts titled
  \<open>Hello World\<close> are created and the first is deleted. The post that remains is the
  second one, unchanged, but its slug is not \<open>hello-world-1\<close>: it was created without a
  slug. The deletion itself renumbers nothing: on a collection whose two posts carry the
  slugs \<open>hello-world\<close> and \<open>hello-world-1\<close>, deleting the first leaves the second with
  \<open>hello-world-1\<close>.
\<close>

theorem deleted_scenario_has_no_slug:
  "map (\<lambda>p. (post_id p, title p, slug p))
     (docs (snd (delete_handler ObjectId_of_hex
        (snd (post_handler 2000
           (snd (post_handler 1000 empty_collection
              \<lparr>body_title = Some ''Hello World'', body_content = Some ''Some content here'',
               body_excerpt = None, body_coverImage = None, body_tags = NoTags\<rparr>))
           \<lparr>body_title = Some ''Hello World'', body_content = Some ''Other content here'',
            body_excerpt = None, body_coverImage = None, body_tags = NoTags\<rparr>))
        ''000000000000000000000000'')))
   = [(1, ''Hello World'', [])]
   \<and> map (\<lambda>p. (post_id p, title p, slug p))
     (docs (snd (delete_handler ObjectId_of_hex
        \<lparr>docs = [\<lparr>post_id = 0, title = ''Hello World'', slug = ''hello-world'',
                   content = ''Some content here'', excerpt = None, tags = [],
                   coverImage = None, createdAt = 1000, updatedAt = 1000\<rparr>,
                 \<lparr>post_id = 1, title = ''Hello World'', slug = ''hello-world-1'',
                   content = ''Other content here'', excerpt = None, tags = [],
                   coverImage = None, createdAt = 2000, updatedAt = 2000\<rparr>],
         next_oid = 2\<rparr>
        ''000000000000000000000000'')))
   = [(1, ''Hello World'', ''hello-world-1'')]"
  by code_simp

end
